theory Spec2Isabelle
  imports Complex_Main
begin

section \<open>Mechanical keyboard sound engine\<close>

text \<open>
  A shallow embedding of the class \<open>KeySoundEngine\<close> and of its profile table.
  JavaScript numbers are modelled as reals, so rounding of binary floating point and the
  narrowing of buffer samples to 32 bits are left out. The host (the Web Audio API and
  \<open>Math.random\<close>) is a record that says how the host behaves during one call.
\<close>

subsection \<open>Switch profiles\<close>

record SwitchProfile =
  baseFreq :: real
  clickFreq :: real
  filterFreq :: real
  filterQ :: real
  thockDecay :: real
  clickDecay :: real
  volume :: real

definition red :: SwitchProfile where
  "red = \<lparr>baseFreq = 160, clickFreq = 0, filterFreq = 600, filterQ = 1.2,
          thockDecay = 0.06, clickDecay = 0, volume = 0.25\<rparr>"

definition blue :: SwitchProfile where
  "blue = \<lparr>baseFreq = 240, clickFreq = 4200, filterFreq = 1800, filterQ = 2.0,
           thockDecay = 0.08, clickDecay = 0.03, volume = 0.32\<rparr>"

definition brown :: SwitchProfile where
  "brown = \<lparr>baseFreq = 200, clickFreq = 2200, filterFreq = 1000, filterQ = 1.4,
            thockDecay = 0.07, clickDecay = 0.015, volume = 0.28\<rparr>"

definition speed :: SwitchProfile where
  "speed = \<lparr>baseFreq = 280, clickFreq = 0, filterFreq = 1200, filterQ = 1.0,
            thockDecay = 0.035, clickDecay = 0, volume = 0.2\<rparr>"

definition black :: SwitchProfile where
  "black = \<lparr>baseFreq = 110, clickFreq = 0, filterFreq = 400, filterQ = 1.5,
            thockDecay = 0.1, clickDecay = 0, volume = 0.3\<rparr>"

text \<open>The own properties of the object literal \<open>PROFILES\<close>, in source order.\<close>

definition PROFILES :: "(string \<times> SwitchProfile) list" where
  "PROFILES = [(''red'', red), (''blue'', blue), (''brown'', brown),
               (''speed'', speed), (''black'', black)]"

text \<open>
  \<open>PROFILES\<close> is an object literal, so its prototype is \<open>Object.prototype\<close> and a property
  read that finds no own property goes on to the properties every object inherits. Each of
  them holds a function or an object, none holds \<open>undefined\<close> or \<open>null\<close>.
\<close>

definition object_prototype_keys :: "string list" where
  "object_prototype_keys =
     [''constructor'', ''__proto__'', ''hasOwnProperty'', ''isPrototypeOf'',
      ''propertyIsEnumerable'', ''toLocaleString'', ''toString'', ''valueOf'',
      ''__defineGetter__'', ''__defineSetter__'', ''__lookupGetter__'',
      ''__lookupSetter__'']"

text \<open>
  What a read of \<open>PROFILES[key]\<close> can give when it is not \<open>undefined\<close>: a profile, or an
  inherited value that is no profile (all its profile fields read as \<open>undefined\<close>).
\<close>

datatype resolved = Profile SwitchProfile | Inherited

definition PROFILES_get :: "string \<Rightarrow> resolved option" where
  "PROFILES_get key =
     (case map_of PROFILES key of
        Some p \<Rightarrow> Some (Profile p)
      | None \<Rightarrow> if key \<in> set object_prototype_keys then Some Inherited else None)"

text \<open>The expression \<open>PROFILES[switchId] ?? PROFILES.red\<close> of \<open>playDown\<close> and \<open>playUp\<close>.\<close>

definition lookup :: "string \<Rightarrow> resolved" where
  "lookup switchId =
     (case PROFILES_get switchId of Some v \<Rightarrow> v | None \<Rightarrow> Profile red)"

text \<open>The domains the data model gives to the fields of a profile.\<close>

definition valid_profile :: "SwitchProfile \<Rightarrow> bool" where
  "valid_profile p \<longleftrightarrow>
     0 < baseFreq p \<and> 0 \<le> clickFreq p \<and> 0 < filterFreq p \<and> 0 < filterQ p \<and>
     0 < thockDecay p \<and> 0 \<le> clickDecay p \<and> 0 < volume p \<and> volume p \<le> 1"

subsection \<open>Jitter\<close>

text \<open>
  \<open>jitter(value, amount = 0.04)\<close>: the second argument is optional, and \<open>r\<close> is the result
  of the call of \<open>Math.random()\<close>, a number in \<open>[0, 1)\<close>.
\<close>

definition jitter :: "real \<Rightarrow> real option \<Rightarrow> real \<Rightarrow> real" where
  "jitter val amount r =
     (let a = (case amount of None \<Rightarrow> 0.04 | Some a' \<Rightarrow> a')
      in val * (1 + (r - 0.5) * 2 * a))"

subsection \<open>Host and engine state\<close>

datatype error = ContextDenied | TypeError

text \<open>
  The host during one call: whether \<open>new AudioContext()\<close> succeeds, the sample rate of the
  device, whether the context is suspended, the context clock, and the results of the
  successive calls of \<open>Math.random()\<close> made during the call.
\<close>

record host =
  allowContext :: bool
  deviceRate :: real
  suspended :: bool
  currentTime :: real
  mathRandom :: "nat \<Rightarrow> real"

record AudioContext =
  ident :: nat
  sampleRate :: real

text \<open>
  The two private fields of the engine, and three counters that record what the engine
  asked of the host: contexts constructed, buffers created, resume requests.
\<close>

record state =
  ctx :: "AudioContext option"
  noiseBuffer :: "real list option"
  contexts :: nat
  buffers :: nat
  resumes :: nat

definition init :: state where
  "init = \<lparr>ctx = None, noiseBuffer = None, contexts = 0, buffers = 0, resumes = 0\<rparr>"

subsection \<open>The noise buffer\<close>

text \<open>A write to a typed array at an index beyond its length is ignored.\<close>

definition store :: "real list \<Rightarrow> nat \<Rightarrow> real \<Rightarrow> real list" where
  "store data i v = (if i < length data then data[i := v] else data)"

definition envelope :: "real \<Rightarrow> nat \<Rightarrow> real" where
  "envelope len i = exp (- real i / (len * 0.25))"

text \<open>
  The loop \<open>for (let i = 0; i < len; i++) data[i] = (Math.random() * 2 - 1) * Math.exp(...)\<close>.
  The loop state is the index and the array; the index reached is also the number of
  calls of \<open>Math.random()\<close> made.
\<close>

function fill :: "real \<Rightarrow> (nat \<Rightarrow> real) \<Rightarrow> nat \<times> real list \<Rightarrow> nat \<times> real list" where
  "fill len rnd (i, data) =
     (if real i < len
      then fill len rnd (i + 1, store data i ((rnd i * 2 - 1) * envelope len i))
      else (i, data))"
  by pat_completeness auto
termination
  by (relation "measure (\<lambda>(len, rnd, i, data). nat \<lceil>len\<rceil> - i)") (auto, linarith)

declare fill.simps [simp del]

text \<open>
  \<open>createBuffer(1, len, sampleRate)\<close> converts \<open>len\<close> to an unsigned integer by dropping its
  fraction and gives a buffer of zeros. The sample rate of a context is positive, is one
  that \<open>createBuffer\<close> accepts and leaves at least one frame, so the call does not raise.
\<close>

definition createBuffer :: "real \<Rightarrow> real list" where
  "createBuffer len = replicate (nat \<lfloor>len\<rfloor>) 0"

definition buildNoiseBuffer :: "host \<Rightarrow> state \<Rightarrow> state \<times> nat" where
  "buildNoiseBuffer h s =
     (case ctx s of
        None \<Rightarrow> (s, 0)
      | Some c \<Rightarrow>
          (let len = sampleRate c * 0.1;
               (n, data) = fill len (mathRandom h) (0, createBuffer len)
           in (s\<lparr>noiseBuffer := Some data, buffers := buffers s + 1\<rparr>, n)))"

subsection \<open>The rendering context\<close>

text \<open>
  \<open>ensureCtx\<close> gives the state it leaves, the context it returns and the number of calls
  of \<open>Math.random()\<close> it made. A failing \<open>new AudioContext()\<close> raises before the field is
  assigned. \<open>resume()\<close> only registers a request.
\<close>

definition ensureCtx :: "host \<Rightarrow> state \<Rightarrow> error + (state \<times> AudioContext \<times> nat)" where
  "ensureCtx h s =
     (case (case ctx s of
              None \<Rightarrow>
                if allowContext h
                then (let c = \<lparr>ident = contexts s, sampleRate = deviceRate h\<rparr>;
                          (s', n) = buildNoiseBuffer h
                                      (s\<lparr>ctx := Some c, contexts := contexts s + 1\<rparr>)
                      in Inr (s', c, n))
                else Inl ContextDenied
            | Some c \<Rightarrow> Inr (s, c, 0)) of
        Inl e \<Rightarrow> Inl e
      | Inr (s', c, n) \<Rightarrow>
          Inr (if suspended h then s'\<lparr>resumes := resumes s' + 1\<rparr> else s', c, n))"

subsection \<open>Scheduled layers\<close>

datatype wave = Sine | Square

text \<open>
  A source is the shared buffer played through a bandpass filter (centre frequency and Q),
  or an oscillator (wave form and frequency).
\<close>

datatype source = BufferSource "real list" real real | Oscillator wave real

text \<open>
  One started signal chain: its source, the gain set at the start, the target and the end
  time of the exponential ramp, and the start and stop times of the source.
\<close>

record layer =
  src :: source
  gainStart :: real
  rampTarget :: real
  rampEnd :: real
  startAt :: real
  stopAt :: real

text \<open>
  The body of a call works on the number of random draws made so far and the layers
  started so far. An exception keeps the layers that were started before it.
\<close>

type_synonym progress = "nat \<times> layer list"

type_synonym step = "progress \<Rightarrow> (error \<times> layer list) + progress"

definition andThen :: "(error \<times> layer list) + progress \<Rightarrow> step \<Rightarrow> (error \<times> layer list) + progress" where
  "andThen r f = (case r of Inl e \<Rightarrow> Inl e | Inr x \<Rightarrow> f x)"

text \<open>
  On a value that is no profile every field is \<open>undefined\<close>: \<open>jitter\<close> draws its random
  number and gives NaN, and the assignment of NaN to an audio parameter raises a
  \<open>TypeError\<close>, before the source is started. The comparison \<open>undefined > 0\<close> is false.
\<close>

definition noiseDown :: "host \<Rightarrow> state \<Rightarrow> resolved \<Rightarrow> step" where
  "noiseDown h s p = (\<lambda>(k, ls).
     case noiseBuffer s of
       None \<Rightarrow> Inr (k, ls)
     | Some buf \<Rightarrow>
         (case p of
            Inherited \<Rightarrow> Inl (TypeError, ls)
          | Profile q \<Rightarrow>
              (let now = currentTime h
               in Inr (k + 2, ls @
                    [\<lparr>src = BufferSource buf (jitter (filterFreq q) None (mathRandom h k))
                                              (filterQ q),
                      gainStart = jitter (volume q) None (mathRandom h (k + 1)),
                      rampTarget = 0.001, rampEnd = now + thockDecay q,
                      startAt = now, stopAt = now + 0.15\<rparr>]))))"

definition thudDown :: "host \<Rightarrow> resolved \<Rightarrow> step" where
  "thudDown h p = (\<lambda>(k, ls).
     case p of
       Inherited \<Rightarrow> Inl (TypeError, ls)
     | Profile q \<Rightarrow>
         (let now = currentTime h
          in Inr (k + 1, ls @
               [\<lparr>src = Oscillator Sine (jitter (baseFreq q) None (mathRandom h k)),
                 gainStart = volume q * 0.45,
                 rampTarget = 0.001, rampEnd = now + 0.04,
                 startAt = now, stopAt = now + 0.05\<rparr>])))"

definition clickDown :: "host \<Rightarrow> resolved \<Rightarrow> step" where
  "clickDown h p = (\<lambda>(k, ls).
     case p of
       Inherited \<Rightarrow> Inr (k, ls)
     | Profile q \<Rightarrow>
         if clickFreq q > 0
         then (let now = currentTime h
               in Inr (k + 1, ls @
                    [\<lparr>src = Oscillator Square
                              (jitter (clickFreq q) (Some 0.06) (mathRandom h k)),
                      gainStart = volume q * 0.25,
                      rampTarget = 0.001, rampEnd = now + clickDecay q,
                      startAt = now, stopAt = now + clickDecay q + 0.005\<rparr>]))
         else Inr (k, ls))"

definition noiseUp :: "host \<Rightarrow> state \<Rightarrow> resolved \<Rightarrow> step" where
  "noiseUp h s p = (\<lambda>(k, ls).
     case noiseBuffer s of
       None \<Rightarrow> Inr (k, ls)
     | Some buf \<Rightarrow>
         (case p of
            Inherited \<Rightarrow> Inl (TypeError, ls)
          | Profile q \<Rightarrow>
              (let now = currentTime h
               in Inr (k + 1, ls @
                    [\<lparr>src = BufferSource buf
                              (jitter (filterFreq q * 1.4) None (mathRandom h k))
                              (filterQ q * 0.8),
                      gainStart = volume q * 0.35,
                      rampTarget = 0.001, rampEnd = now + thockDecay q * 0.6,
                      startAt = now, stopAt = now + 0.1\<rparr>]))))"

definition clickUp :: "host \<Rightarrow> resolved \<Rightarrow> step" where
  "clickUp h p = (\<lambda>(k, ls).
     case p of
       Inherited \<Rightarrow> Inr (k, ls)
     | Profile q \<Rightarrow>
         if clickFreq q > 0
         then (let now = currentTime h
               in Inr (k + 1, ls @
                    [\<lparr>src = Oscillator Square
                              (jitter (clickFreq q * 0.8) None (mathRandom h k)),
                      gainStart = volume q * 0.15,
                      rampTarget = 0.001, rampEnd = now + clickDecay q * 0.7,
                      startAt = now, stopAt = now + clickDecay q * 0.7 + 0.005\<rparr>]))
         else Inr (k, ls))"

subsection \<open>The public operations\<close>

text \<open>
  What a call leaves: the state after it, the layers it started, and the exception it
  raised to its caller, if any.
\<close>

record outcome =
  after :: state
  scheduled :: "layer list"
  raised :: "error option"

definition finish :: "state \<Rightarrow> (error \<times> layer list) + progress \<Rightarrow> outcome" where
  "finish s r =
     (case r of
        Inl (e, ls) \<Rightarrow> \<lparr>after = s, scheduled = ls, raised = Some e\<rparr>
      | Inr (k, ls) \<Rightarrow> \<lparr>after = s, scheduled = ls, raised = None\<rparr>)"

definition playDown :: "host \<Rightarrow> state \<Rightarrow> string \<Rightarrow> outcome" where
  "playDown h s switchId =
     (case ensureCtx h s of
        Inl e \<Rightarrow> \<lparr>after = s, scheduled = [], raised = Some e\<rparr>
      | Inr (s', c, n) \<Rightarrow>
          (let p = lookup switchId
           in finish s'
                (andThen (andThen (noiseDown h s' p (n, [])) (thudDown h p))
                   (clickDown h p))))"

definition playUp :: "host \<Rightarrow> state \<Rightarrow> string \<Rightarrow> outcome" where
  "playUp h s switchId =
     (case ensureCtx h s of
        Inl e \<Rightarrow> \<lparr>after = s, scheduled = [], raised = Some e\<rparr>
      | Inr (s', c, n) \<Rightarrow>
          (let p = lookup switchId
           in finish s' (andThen (noiseUp h s' p (n, [])) (clickUp h p))))"

text \<open>Sequences of calls, each under the host of its moment.\<close>

datatype stroke = Down | Up

fun perform :: "host \<times> stroke \<times> string \<Rightarrow> state \<Rightarrow> outcome" where
  "perform (h, Down, switchId) s = playDown h s switchId"
| "perform (h, Up, switchId) s = playUp h s switchId"

fun run :: "(host \<times> stroke \<times> string) list \<Rightarrow> state \<Rightarrow> state" where
  "run [] s = s"
| "run (c # cs) s = run cs (after (perform c s))"

text \<open>Recognisers for the three kinds of layer.\<close>

fun isNoise :: "layer \<Rightarrow> bool" where
  "isNoise l = (case src l of BufferSource b f q \<Rightarrow> True | Oscillator w f \<Rightarrow> False)"

fun isThud :: "layer \<Rightarrow> bool" where
  "isThud l = (case src l of BufferSource b f q \<Rightarrow> False | Oscillator w f \<Rightarrow> w = Sine)"

fun isClick :: "layer \<Rightarrow> bool" where
  "isClick l = (case src l of BufferSource b f q \<Rightarrow> False | Oscillator w f \<Rightarrow> w = Square)"

text \<open>The comparison \<open>p.clickFreq > 0\<close> on what the lookup gave.\<close>

fun clickFreqPositive :: "resolved \<Rightarrow> bool" where
  "clickFreqPositive (Profile q) = (clickFreq q > 0)"
| "clickFreqPositive Inherited = False"

text \<open>The invariant of the two private fields: a context never comes without its buffer.\<close>

definition bufferWithContext :: "state \<Rightarrow> bool" where
  "bufferWithContext s \<longleftrightarrow> (ctx s \<noteq> None \<longrightarrow> noiseBuffer s \<noteq> None)"

text \<open>
  What a state reached from \<open>init\<close> looks like: nothing constructed yet, or one context and
  one buffer.
\<close>

definition built :: "state \<Rightarrow> bool" where
  "built s \<longleftrightarrow>
     (ctx s = None \<and> noiseBuffer s = None \<and> contexts s = 0 \<and> buffers s = 0) \<or>
     (ctx s \<noteq> None \<and> noiseBuffer s \<noteq> None \<and> contexts s = 1 \<and> buffers s = 1)"

text \<open>Hosts and states used for concrete runs.\<close>

definition hostGranting :: host where
  "hostGranting = \<lparr>allowContext = True, deviceRate = 44100, suspended = True,
                    currentTime = 0, mathRandom = (\<lambda>k. 1 / (real k + 2))\<rparr>"

definition hostDenying :: host where
  "hostDenying = \<lparr>allowContext = False, deviceRate = 44100, suspended = False,
                   currentTime = 0, mathRandom = (\<lambda>k. 1 / (real k + 2))\<rparr>"

definition host11025 :: host where
  "host11025 = \<lparr>allowContext = True, deviceRate = 11025, suspended = False,
                 currentTime = 0, mathRandom = (\<lambda>k. 1 / (real k + 2))\<rparr>"

definition hostLowDraw :: host where
  "hostLowDraw = \<lparr>allowContext = True, deviceRate = 44100, suspended = False,
                   currentTime = 0, mathRandom = (\<lambda>k. 0)\<rparr>"

text \<open>A state with a context and no buffer, the one the test in \<open>playDown\<close> guards against.\<close>

definition contextOnly :: state where
  "contextOnly = \<lparr>ctx = Some \<lparr>ident = 0, sampleRate = 44100\<rparr>, noiseBuffer = None,
                   contexts = 1, buffers = 0, resumes = 0\<rparr>"

section \<open>Auxiliary facts\<close>

subsection \<open>Profiles and jitter\<close>

lemma lookup_red: "lookup ''red'' = Profile red"
  by (simp add: lookup_def PROFILES_get_def PROFILES_def)

lemma valid_profiles:
  "valid_profile red" "valid_profile blue" "valid_profile brown"
  "valid_profile speed" "valid_profile black"
  by (simp_all add: valid_profile_def red_def blue_def brown_def speed_def black_def)

lemma lookup_own_key:
  "switchId \<notin> set object_prototype_keys \<Longrightarrow>
     \<exists>p. lookup switchId = Profile p \<and> valid_profile p \<and>
         (switchId \<notin> set (map fst PROFILES) \<longrightarrow> p = red)"
  using valid_profiles
  by (auto simp: lookup_def PROFILES_get_def PROFILES_def split: option.splits if_splits)

lemma jitter_bounds:
  fixes v a u :: real
  assumes "0 \<le> v" "0 \<le> a" "-0.5 \<le> u" "u < 0.5"
  shows "v * (1 - a) \<le> v * (1 + u * 2 * a)" "v * (1 + u * 2 * a) \<le> v * (1 + a)"
proof -
  have "(-1) * a \<le> (u * 2) * a" using assms(2,3) by (intro mult_right_mono) auto
  then show "v * (1 - a) \<le> v * (1 + u * 2 * a)" using assms(1) by (intro mult_left_mono) auto
  have "(u * 2) * a \<le> 1 * a" using assms(2,4) by (intro mult_right_mono) auto
  then show "v * (1 + u * 2 * a) \<le> v * (1 + a)" using assms(1) by (intro mult_left_mono) auto
qed

subsection \<open>The buffer loop\<close>

lemma fill_length_gen: "length (snd (fill len rnd st)) = length (snd st)"
proof (induction len rnd st rule: fill.induct)
  case (1 len rnd i data)
  show ?case
  proof (cases "real i < len")
    case True
    with 1 show ?thesis by (simp add: fill.simps [of len rnd i data] store_def)
  next
    case False
    then show ?thesis by (simp add: fill.simps [of len rnd i data])
  qed
qed

lemma fill_nth_gen:
  "j < length (snd st) \<Longrightarrow>
   snd (fill len rnd st) ! j =
     (if fst st \<le> j \<and> real j < len then (rnd j * 2 - 1) * envelope len j else snd st ! j)"
proof (induction len rnd st rule: fill.induct)
  case (1 len rnd i data)
  show ?case
  proof (cases "real i < len")
    case True
    have "j < length (snd (i + 1, store data i ((rnd i * 2 - 1) * envelope len i)))"
      using 1(2) by (simp add: store_def)
    from 1(1) [OF True this] True 1(2) show ?thesis
      by (cases "j = i") (auto simp: fill.simps [of len rnd i data] store_def)
  next
    case False
    then show ?thesis by (auto simp: fill.simps [of len rnd i data])
  qed
qed

lemma fill_length: "length (snd (fill len rnd (i, data))) = length data"
  using fill_length_gen [of len rnd "(i, data)"] by simp

lemma fill_nth:
  "j < length data \<Longrightarrow>
   snd (fill len rnd (0, data)) ! j =
     (if real j < len then (rnd j * 2 - 1) * envelope len j else data ! j)"
  using fill_nth_gen [of j "(0, data)" len rnd] by simp

lemma createBuffer_covered: "j < length (createBuffer len) \<Longrightarrow> real j < len"
  by (simp add: createBuffer_def) linarith

lemma envelope_zero: "envelope len 0 = 1"
  by (simp add: envelope_def)

lemma envelope_decreasing: "0 < len \<Longrightarrow> i < j \<Longrightarrow> envelope len j < envelope len i"
  by (simp add: envelope_def divide_strict_right_mono)

lemma envelope_le_one: "0 < len \<Longrightarrow> envelope len i \<le> 1"
  by (simp add: envelope_def)

lemma envelope_pos: "0 < envelope len i"
  by (simp add: envelope_def)

lemma sample_bound:
  fixes r :: real
  assumes "0 \<le> r" "r < 1" "0 < len"
  shows "\<bar>(r * 2 - 1) * envelope len i\<bar> \<le> 1"
proof -
  have "\<bar>r * 2 - 1\<bar> \<le> 1" using assms by (simp add: abs_le_iff)
  moreover have "\<bar>envelope len i\<bar> \<le> 1" using envelope_le_one [OF assms(3)] envelope_pos [of len i] by simp
  ultimately have "\<bar>r * 2 - 1\<bar> * \<bar>envelope len i\<bar> \<le> 1 * 1" by (intro mult_mono) auto
  then show ?thesis by (simp add: abs_mult)
qed

lemma buildNoiseBuffer_Some:
  "ctx s = Some c \<Longrightarrow>
   \<exists>data n. buildNoiseBuffer h s = (s\<lparr>noiseBuffer := Some data, buffers := buffers s + 1\<rparr>, n) \<and>
     data = snd (fill (sampleRate c * 0.1) (mathRandom h) (0, createBuffer (sampleRate c * 0.1)))"
  by (simp add: buildNoiseBuffer_def Let_def split: prod.splits)


subsection \<open>Context and calls\<close>

lemma after_finish: "after (finish s r) = s"
  by (simp add: finish_def split: sum.splits prod.splits)

lemma ensureCtx_denied:
  "ctx s = None \<Longrightarrow> \<not> allowContext h \<Longrightarrow> ensureCtx h s = Inl ContextDenied"
  by (simp add: ensureCtx_def)

lemma ensureCtx_existing:
  "ctx s = Some c \<Longrightarrow>
   ensureCtx h s = Inr (if suspended h then s\<lparr>resumes := resumes s + 1\<rparr> else s, c, 0)"
  by (simp add: ensureCtx_def)

lemma ensureCtx_fresh:
  assumes "ctx s = None" "allowContext h"
  shows "\<exists>s' n data.
           ensureCtx h s = Inr (s', \<lparr>ident = contexts s, sampleRate = deviceRate h\<rparr>, n) \<and>
           ctx s' = Some \<lparr>ident = contexts s, sampleRate = deviceRate h\<rparr> \<and>
           noiseBuffer s' = Some data \<and>
           data = snd (fill (deviceRate h * 0.1) (mathRandom h)
                         (0, createBuffer (deviceRate h * 0.1))) \<and>
           contexts s' = contexts s + 1 \<and> buffers s' = buffers s + 1"
  using assms
  by (simp add: ensureCtx_def buildNoiseBuffer_def Let_def split: prod.splits)

lemma ensureCtx_returns:
  "allowContext h \<or> ctx s \<noteq> None \<Longrightarrow> \<exists>s' c n. ensureCtx h s = Inr (s', c, n)"
proof (cases "ctx s")
  case None
  assume "allowContext h \<or> ctx s \<noteq> None"
  with None have "allowContext h" by simp
  from ensureCtx_fresh [OF None this] show ?thesis by blast
next
  case (Some c)
  then show ?thesis by (simp add: ensureCtx_existing)
qed

lemma ensureCtx_result:
  assumes "ensureCtx h s = Inr (s', c, n)"
  shows "ctx s' = Some c"
    and "ctx s = None \<Longrightarrow> noiseBuffer s' \<noteq> None \<and> contexts s' = contexts s + 1 \<and>
           buffers s' = buffers s + 1 \<and> allowContext h"
    and "ctx s \<noteq> None \<Longrightarrow> ctx s' = ctx s \<and> noiseBuffer s' = noiseBuffer s \<and>
           contexts s' = contexts s \<and> buffers s' = buffers s \<and> n = 0"
proof -
  show "ctx s' = Some c"
  proof (cases "ctx s")
    case None
    show ?thesis
    proof (cases "allowContext h")
      case True
      from ensureCtx_fresh [OF None True] assms show ?thesis by auto
    next
      case False
      from ensureCtx_denied [OF None False] assms show ?thesis by simp
    qed
  next
    case (Some d)
    from ensureCtx_existing [OF Some, of h] assms show ?thesis
      by (auto simp: Some split: if_splits)
  qed
  show "noiseBuffer s' \<noteq> None \<and> contexts s' = contexts s + 1 \<and>
           buffers s' = buffers s + 1 \<and> allowContext h" if n: "ctx s = None"
  proof (cases "allowContext h")
    case True
    from ensureCtx_fresh [OF n True] assms True show ?thesis by auto
  next
    case False
    from ensureCtx_denied [OF n False] assms show ?thesis by simp
  qed
  show "ctx s' = ctx s \<and> noiseBuffer s' = noiseBuffer s \<and>
           contexts s' = contexts s \<and> buffers s' = buffers s \<and> n = 0" if "ctx s \<noteq> None"
  proof -
    from that obtain d where d: "ctx s = Some d" by auto
    from ensureCtx_existing [OF d, of h] assms show ?thesis
      by (auto split: if_splits)
  qed
qed

lemma after_playDown:
  "after (playDown h s sw) = (case ensureCtx h s of Inl e \<Rightarrow> s | Inr (s', c, n) \<Rightarrow> s')"
  by (simp add: playDown_def after_finish Let_def split: sum.splits prod.splits)

lemma after_playUp:
  "after (playUp h s sw) = (case ensureCtx h s of Inl e \<Rightarrow> s | Inr (s', c, n) \<Rightarrow> s')"
  by (simp add: playUp_def after_finish Let_def split: sum.splits prod.splits)

lemma playDown_denied:
  "ctx s = None \<Longrightarrow> \<not> allowContext h \<Longrightarrow>
   playDown h s sw = \<lparr>after = s, scheduled = [], raised = Some ContextDenied\<rparr>"
  by (simp add: playDown_def ensureCtx_denied)

lemma playUp_denied:
  "ctx s = None \<Longrightarrow> \<not> allowContext h \<Longrightarrow>
   playUp h s sw = \<lparr>after = s, scheduled = [], raised = Some ContextDenied\<rparr>"
  by (simp add: playUp_def ensureCtx_denied)

lemma playDown_profile:
  assumes "ensureCtx h s = Inr (s', c, n)" "lookup sw = Profile q"
  shows "playDown h s sw =
    \<lparr>after = s',
     scheduled =
       (case noiseBuffer s' of
          None \<Rightarrow> []
        | Some buf \<Rightarrow>
            [\<lparr>src = BufferSource buf (jitter (filterFreq q) None (mathRandom h n)) (filterQ q),
              gainStart = jitter (volume q) None (mathRandom h (n + 1)),
              rampTarget = 0.001, rampEnd = currentTime h + thockDecay q,
              startAt = currentTime h, stopAt = currentTime h + 0.15\<rparr>]) @
       [\<lparr>src = Oscillator Sine
                (jitter (baseFreq q) None
                   (mathRandom h (n + (case noiseBuffer s' of None \<Rightarrow> 0 | Some b \<Rightarrow> 2)))),
         gainStart = volume q * 0.45,
         rampTarget = 0.001, rampEnd = currentTime h + 0.04,
         startAt = currentTime h, stopAt = currentTime h + 0.05\<rparr>] @
       (if clickFreq q > 0
        then [\<lparr>src = Oscillator Square
                      (jitter (clickFreq q) (Some 0.06)
                         (mathRandom h
                            (n + (case noiseBuffer s' of None \<Rightarrow> 0 | Some b \<Rightarrow> 2) + 1))),
               gainStart = volume q * 0.25,
               rampTarget = 0.001, rampEnd = currentTime h + clickDecay q,
               startAt = currentTime h, stopAt = currentTime h + clickDecay q + 0.005\<rparr>]
        else []),
     raised = None\<rparr>"
  using assms
  by (simp add: playDown_def noiseDown_def thudDown_def clickDown_def andThen_def finish_def
        Let_def split: option.splits)

lemma playUp_profile:
  assumes "ensureCtx h s = Inr (s', c, n)" "lookup sw = Profile q"
  shows "playUp h s sw =
    \<lparr>after = s',
     scheduled =
       (case noiseBuffer s' of
          None \<Rightarrow> []
        | Some buf \<Rightarrow>
            [\<lparr>src = BufferSource buf (jitter (filterFreq q * 1.4) None (mathRandom h n))
                      (filterQ q * 0.8),
              gainStart = volume q * 0.35,
              rampTarget = 0.001, rampEnd = currentTime h + thockDecay q * 0.6,
              startAt = currentTime h, stopAt = currentTime h + 0.1\<rparr>]) @
       (if clickFreq q > 0
        then [\<lparr>src = Oscillator Square
                      (jitter (clickFreq q * 0.8) None
                         (mathRandom h
                            (n + (case noiseBuffer s' of None \<Rightarrow> 0 | Some b \<Rightarrow> 1)))),
               gainStart = volume q * 0.15,
               rampTarget = 0.001, rampEnd = currentTime h + clickDecay q * 0.7,
               startAt = currentTime h, stopAt = currentTime h + clickDecay q * 0.7 + 0.005\<rparr>]
        else []),
     raised = None\<rparr>"
  using assms
  by (simp add: playUp_def noiseUp_def clickUp_def andThen_def finish_def
        Let_def split: option.splits)

lemma playDown_inherited:
  assumes "ensureCtx h s = Inr (s', c, n)" "lookup sw = Inherited"
  shows "playDown h s sw = \<lparr>after = s', scheduled = [], raised = Some TypeError\<rparr>"
  using assms
  by (simp add: playDown_def noiseDown_def thudDown_def clickDown_def andThen_def finish_def
        Let_def split: option.splits)

lemma playUp_inherited:
  assumes "ensureCtx h s = Inr (s', c, n)" "lookup sw = Inherited"
  shows "playUp h s sw =
           \<lparr>after = s', scheduled = [],
            raised = (case noiseBuffer s' of None \<Rightarrow> None | Some b \<Rightarrow> Some TypeError)\<rparr>"
  using assms
  by (simp add: playUp_def noiseUp_def clickUp_def andThen_def finish_def
        Let_def split: option.splits)

lemma lookup_blue: "lookup ''blue'' = Profile blue"
  by (simp add: lookup_def PROFILES_get_def PROFILES_def)

lemma lookup_speed: "lookup ''speed'' = Profile speed"
  by (simp add: lookup_def PROFILES_get_def PROFILES_def)

lemma after_perform:
  "after (perform (h, k, sw) s) = (case ensureCtx h s of Inl e \<Rightarrow> s | Inr (s', c, n) \<Rightarrow> s')"
  by (cases k) (simp_all add: after_playDown after_playUp)

lemma perform_keeps:
  assumes "ctx s \<noteq> None"
  shows "ctx (after (perform (h, k, sw) s)) = ctx s \<and>
         noiseBuffer (after (perform (h, k, sw) s)) = noiseBuffer s \<and>
         contexts (after (perform (h, k, sw) s)) = contexts s \<and>
         buffers (after (perform (h, k, sw) s)) = buffers s"
proof -
  from assms obtain c where c: "ctx s = Some c" by auto
  show ?thesis
    by (simp add: after_perform ensureCtx_existing [OF c])
qed

lemma perform_first:
  assumes "ctx s = None" "allowContext h"
  shows "ctx (after (perform (h, k, sw) s)) = Some \<lparr>ident = contexts s, sampleRate = deviceRate h\<rparr> \<and>
         noiseBuffer (after (perform (h, k, sw) s)) \<noteq> None \<and>
         contexts (after (perform (h, k, sw) s)) = contexts s + 1 \<and>
         buffers (after (perform (h, k, sw) s)) = buffers s + 1"
proof -
  from ensureCtx_fresh [OF assms] obtain s' n data where
    e: "ensureCtx h s = Inr (s', \<lparr>ident = contexts s, sampleRate = deviceRate h\<rparr>, n)"
    and r: "ctx s' = Some \<lparr>ident = contexts s, sampleRate = deviceRate h\<rparr>"
       "noiseBuffer s' = Some data" "contexts s' = contexts s + 1" "buffers s' = buffers s + 1"
    by blast
  show ?thesis by (simp add: after_perform e r)
qed

lemma perform_refused:
  assumes "ctx s = None" "\<not> allowContext h"
  shows "after (perform (h, k, sw) s) = s"
  by (simp add: after_perform ensureCtx_denied [OF assms])

lemma built_init: "built init"
  by (simp add: built_def init_def)

lemma built_perform: "built s \<Longrightarrow> built (after (perform call s))"
proof -
  assume b: "built s"
  obtain h k sw where call: "call = (h, k, sw)" by (cases call) auto
  show ?thesis
  proof (cases "ctx s = None")
    case True
    show ?thesis
    proof (cases "allowContext h")
      case True
      with perform_first [OF \<open>ctx s = None\<close> True, of k sw] b \<open>ctx s = None\<close>
      show ?thesis by (auto simp: built_def call)
    next
      case False
      with perform_refused [OF \<open>ctx s = None\<close> False, of k sw] b show ?thesis
        by (simp add: call)
    qed
  next
    case False
    with perform_keeps [OF False, of h k sw] b show ?thesis
      by (auto simp: built_def call)
  qed
qed

lemma built_run: "built s \<Longrightarrow> built (run calls s)"
  by (induction calls arbitrary: s) (simp_all add: built_perform)

lemma run_append: "run (cs @ ds) s = run ds (run cs s)"
  by (induction cs arbitrary: s) simp_all

lemma run_keeps:
  "ctx s \<noteq> None \<Longrightarrow>
   ctx (run calls s) = ctx s \<and> noiseBuffer (run calls s) = noiseBuffer s \<and>
   contexts (run calls s) = contexts s \<and> buffers (run calls s) = buffers s"
proof (induction calls arbitrary: s)
  case Nil
  then show ?case by simp
next
  case (Cons call calls)
  obtain h k sw where call: "call = (h, k, sw)" by (cases call) auto
  from perform_keeps [OF Cons.prems, of h k sw]
  have k: "ctx (after (perform call s)) = ctx s"
    "noiseBuffer (after (perform call s)) = noiseBuffer s"
    "contexts (after (perform call s)) = contexts s"
    "buffers (after (perform call s)) = buffers s"
    by (simp_all add: call)
  from k(1) Cons.prems have "ctx (after (perform call s)) \<noteq> None" by simp
  from Cons.IH [OF this] k show ?case by simp
qed

lemma bufferWithContext_ensured:
  assumes "bufferWithContext s" "ensureCtx h s = Inr (s', c, n)"
  shows "noiseBuffer s' \<noteq> None"
proof (cases "ctx s = None")
  case True
  from ensureCtx_result(2) [OF assms(2) True] show ?thesis by simp
next
  case False
  from ensureCtx_result(3) [OF assms(2) False] assms(1) False show ?thesis
    by (simp add: bufferWithContext_def)
qed

lemma bufferWithContext_perform:
  assumes "bufferWithContext s"
  shows "bufferWithContext (after (perform (h, k, sw) s))"
proof (cases "ensureCtx h s")
  case (Inl e)
  with assms show ?thesis by (simp add: after_perform)
next
  case (Inr r)
  obtain s' c n where r: "r = (s', c, n)" by (cases r) auto
  from Inr r have e: "ensureCtx h s = Inr (s', c, n)" by simp
  from bufferWithContext_ensured [OF assms e] show ?thesis
    by (simp add: after_perform e bufferWithContext_def)
qed

lemma bufferWithContext_run: "bufferWithContext s \<Longrightarrow> bufferWithContext (run calls s)"
proof (induction calls arbitrary: s)
  case Nil
  then show ?case by simp
next
  case (Cons call calls)
  obtain h k sw where call: "call = (h, k, sw)" by (cases call) auto
  from bufferWithContext_perform [OF Cons.prems, of h k sw]
  have "bufferWithContext (after (perform call s))" by (simp add: call)
  from Cons.IH [OF this] show ?case by simp
qed

subsection \<open>The invariant of the two fields\<close>

text \<open>
  A state with a context has a buffer: the invariant holds initially, after every sequence
  of calls, and is kept by \<open>playDown\<close> and \<open>playUp\<close>. Whenever \<open>ensureCtx\<close> returns, the buffer
  exists at the test; a call that returns normally has then scheduled the noise body, and
  every call on a switch id that resolves to a profile does so.
\<close>

lemma buffer_present_with_context:
  "bufferWithContext init \<and> bufferWithContext (run calls init) \<and>
   (bufferWithContext s \<longrightarrow>
      bufferWithContext (after (playDown h s switchId)) \<and>
      bufferWithContext (after (playUp h s switchId)) \<and>
      (\<forall>s' c n. ensureCtx h s = Inr (s', c, n) \<longrightarrow>
         noiseBuffer s' \<noteq> None \<and>
         (raised (playDown h s switchId) = None \<longrightarrow>
            filter isNoise (scheduled (playDown h s switchId)) \<noteq> []) \<and>
         (raised (playUp h s switchId) = None \<longrightarrow>
            filter isNoise (scheduled (playUp h s switchId)) \<noteq> []) \<and>
         (\<forall>q. lookup switchId = Profile q \<longrightarrow>
            filter isNoise (scheduled (playDown h s switchId)) \<noteq> [] \<and>
            filter isNoise (scheduled (playUp h s switchId)) \<noteq> [])))"
proof (intro conjI impI allI)
  show i: "bufferWithContext init" by (simp add: bufferWithContext_def init_def)
  show "bufferWithContext (run calls init)" by (rule bufferWithContext_run [OF i])
next
  assume b: "bufferWithContext s"
  from bufferWithContext_perform [OF b, of h Down switchId]
  show "bufferWithContext (after (playDown h s switchId))" by simp
  from bufferWithContext_perform [OF b, of h Up switchId]
  show "bufferWithContext (after (playUp h s switchId))" by simp
next
  fix s' c n
  assume b: "bufferWithContext s" and e: "ensureCtx h s = Inr (s', c, n)"
  from bufferWithContext_ensured [OF b e] show "noiseBuffer s' \<noteq> None" .
next
  fix s' c n
  assume b: "bufferWithContext s" and e: "ensureCtx h s = Inr (s', c, n)"
    and r: "raised (playDown h s switchId) = None"
  from bufferWithContext_ensured [OF b e] obtain buf where d: "noiseBuffer s' = Some buf"
    by auto
  show "filter isNoise (scheduled (playDown h s switchId)) \<noteq> []"
  proof (cases "lookup switchId")
    case (Profile q)
    then show ?thesis by (simp add: playDown_profile [OF e Profile] d)
  next
    case Inherited
    from playDown_inherited [OF e Inherited] r show ?thesis by simp
  qed
next
  fix s' c n
  assume b: "bufferWithContext s" and e: "ensureCtx h s = Inr (s', c, n)"
    and r: "raised (playUp h s switchId) = None"
  from bufferWithContext_ensured [OF b e] obtain buf where d: "noiseBuffer s' = Some buf"
    by auto
  show "filter isNoise (scheduled (playUp h s switchId)) \<noteq> []"
  proof (cases "lookup switchId")
    case (Profile q)
    then show ?thesis by (simp add: playUp_profile [OF e Profile] d)
  next
    case Inherited
    from playUp_inherited [OF e Inherited] r d show ?thesis by simp
  qed
next
  fix s' c n q
  assume b: "bufferWithContext s" and e: "ensureCtx h s = Inr (s', c, n)"
    and p: "lookup switchId = Profile q"
  from bufferWithContext_ensured [OF b e] obtain buf where d: "noiseBuffer s' = Some buf"
    by auto
  show "filter isNoise (scheduled (playDown h s switchId)) \<noteq> []"
    by (simp add: playDown_profile [OF e p] d)
  show "filter isNoise (scheduled (playUp h s switchId)) \<noteq> []"
    by (simp add: playUp_profile [OF e p] d)
qed

text \<open>The same on \<open>"brown"\<close> from the initial state under a granting host.\<close>

lemma buffer_present_with_context_example:
  "bufferWithContext init \<and>
   bufferWithContext (after (playDown hostGranting init ''brown'')) \<and>
   bufferWithContext (after (playUp hostGranting init ''brown'')) \<and>
   (\<exists>s' c n. ensureCtx hostGranting init = Inr (s', c, n) \<and> noiseBuffer s' \<noteq> None) \<and>
   lookup ''brown'' = Profile brown \<and>
   raised (playDown hostGranting init ''brown'') = None \<and>
   filter isNoise (scheduled (playDown hostGranting init ''brown'')) \<noteq> [] \<and>
   filter isNoise (scheduled (playUp hostGranting init ''brown'')) \<noteq> []"
proof -
  have a: "allowContext hostGranting" by (simp add: hostGranting_def)
  obtain s' c n where e: "ensureCtx hostGranting init = Inr (s', c, n)"
    using ensureCtx_returns [of hostGranting init] a by blast
  have p: "lookup ''brown'' = Profile brown"
    by (simp add: lookup_def PROFILES_get_def PROFILES_def)
  have r: "raised (playDown hostGranting init ''brown'') = None"
    by (simp add: playDown_profile [OF e p])
  from buffer_present_with_context [of "[]" init hostGranting "''brown''"] e p r
  show ?thesis by blast
qed

section \<open>The claims\<close>

text \<open>
  Claim C1 says that \<open>playDown\<close> and \<open>playUp\<close> never raise, whatever the switch id, the
  engine state and the host. The engine has no exception handler: on the initial state,
  under a host that refuses \<open>new AudioContext()\<close>, \<open>playDown("red")\<close> raises to its caller.
\<close>

theorem play_raises_counterexample:
  "raised (playDown hostDenying init ''red'') = Some ContextDenied"
  by (simp add: playDown_denied init_def hostDenying_def)

text \<open>
  Claim C1 as amended: for a switch id that resolves to a profile, both operations return
  normally whenever the engine already holds a context or the host grants its construction;
  when the engine holds no context and the host refuses, the exception reaches the caller,
  nothing is scheduled and the state is unchanged.
\<close>

theorem play_raises_only_on_denial:
  assumes "lookup switchId = Profile q"
  shows "(allowContext h \<or> ctx s \<noteq> None \<longrightarrow>
            raised (playDown h s switchId) = None \<and> raised (playUp h s switchId) = None) \<and>
         (\<not> allowContext h \<and> ctx s = None \<longrightarrow>
            playDown h s switchId = \<lparr>after = s, scheduled = [], raised = Some ContextDenied\<rparr> \<and>
            playUp h s switchId = \<lparr>after = s, scheduled = [], raised = Some ContextDenied\<rparr>)"
proof (intro conjI impI)
  assume "allowContext h \<or> ctx s \<noteq> None"
  then obtain s' c n where e: "ensureCtx h s = Inr (s', c, n)"
    using ensureCtx_returns by blast
  show "raised (playDown h s switchId) = None"
    by (simp add: playDown_profile [OF e assms])
  show "raised (playUp h s switchId) = None"
    by (simp add: playUp_profile [OF e assms])
next
  assume d: "\<not> allowContext h \<and> ctx s = None"
  then show "playDown h s switchId = \<lparr>after = s, scheduled = [], raised = Some ContextDenied\<rparr>"
    by (simp add: playDown_denied)
  from d show "playUp h s switchId = \<lparr>after = s, scheduled = [], raised = Some ContextDenied\<rparr>"
    by (simp add: playUp_denied)
qed

text \<open>Claim C1 as amended, on \<open>"red"\<close> from the initial state, under a granting and a refusing host.\<close>

theorem play_raises_only_on_denial_witness:
  "lookup ''red'' = Profile red \<and>
   allowContext hostGranting \<and> raised (playDown hostGranting init ''red'') = None \<and>
   raised (playUp hostGranting init ''red'') = None \<and>
   \<not> allowContext hostDenying \<and> ctx init = None \<and>
   playUp hostDenying init ''red'' = \<lparr>after = init, scheduled = [], raised = Some ContextDenied\<rparr>"
  using play_raises_only_on_denial [OF lookup_red, of hostGranting init]
        play_raises_only_on_denial [OF lookup_red, of hostDenying init]
  by (simp add: lookup_red hostGranting_def hostDenying_def init_def)

text \<open>
  Claim C2 says that the lookup gives a valid profile for every string and the profile
  \<open>red\<close> for every string that is no profile name. For \<open>"constructor"\<close> the read of
  \<open>PROFILES[switchId]\<close> finds the property inherited from \<open>Object.prototype\<close>, which is not
  nullish, so the fallback \<open>?? PROFILES.red\<close> is not taken and the result is no profile.
  (Lemma \<open>lookup_own_key\<close> is the claim for all other strings.)
\<close>

theorem lookup_inherited_key:
  "lookup ''constructor'' = Inherited \<and> lookup ''constructor'' \<noteq> Profile red"
  by (simp add: lookup_def PROFILES_get_def PROFILES_def object_prototype_keys_def)

text \<open>
  Claim C3: \<open>jitter(v, 0)\<close> is exactly \<open>v\<close>; for an amount \<open>a > 0\<close> the result is
  \<open>v * (1 + u * 2 * a)\<close> with \<open>u = r - 0.5\<close> the draw shifted into \<open>[-0.5, 0.5)\<close>, and
  for a non-negative \<open>v\<close> it lies between \<open>v * (1 - a)\<close> and \<open>v * (1 + a)\<close>.
\<close>

theorem jitter_exact_and_bounded:
  "jitter v (Some 0) r = v \<and>
   (0 < a \<longrightarrow>
      jitter v (Some a) r = v * (1 + (r - 0.5) * 2 * a) \<and>
      (0 \<le> v \<and> 0 \<le> r \<and> r < 1 \<longrightarrow>
         v * (1 - a) \<le> jitter v (Some a) r \<and> jitter v (Some a) r \<le> v * (1 + a)))"
proof (intro conjI impI)
  show "jitter v (Some 0) r = v" by (simp add: jitter_def)
  show "jitter v (Some a) r = v * (1 + (r - 0.5) * 2 * a)" by (simp add: jitter_def)
next
  assume a: "0 < a" and b: "0 \<le> v \<and> 0 \<le> r \<and> r < 1"
  have u: "- 0.5 \<le> r - 0.5" "r - 0.5 < 0.5" using b by simp_all
  have a0: "0 \<le> a" using a by simp
  from b have v: "0 \<le> v" by simp
  from jitter_bounds(1) [OF v a0 u]
  show "v * (1 - a) \<le> jitter v (Some a) r" by (simp add: jitter_def)
  from jitter_bounds(2) [OF v a0 u]
  show "jitter v (Some a) r \<le> v * (1 + a)" by (simp add: jitter_def)
qed

text \<open>Claim C3 on the click frequency of \<open>blue\<close> with amount 0.06 and the draw 0.25.\<close>

theorem jitter_exact_and_bounded_witness:
  "(0::real) < 0.06 \<and> (0::real) \<le> 4200 \<and> (0::real) \<le> 0.25 \<and> (0.25::real) < 1 \<and>
   jitter 4200 (Some 0.06) 0.25 = 4074 \<and>
   4200 * (1 - 0.06) \<le> jitter 4200 (Some 0.06) 0.25 \<and>
   jitter 4200 (Some 0.06) 0.25 \<le> 4200 * (1 + 0.06)"
  using jitter_exact_and_bounded [of 4200 "0.25" "0.06"]
  by (simp add: jitter_def)

text \<open>
  Claim C4: over every sequence of \<open>playDown\<close> and \<open>playUp\<close> calls from the initial state at
  most one context and at most one buffer are constructed; a first call that the host
  grants constructs both; once a context exists every later call keeps the same context
  and the same buffer; and a repeated \<open>ensureCtx\<close> returns the same context and constructs
  nothing.
\<close>

theorem context_and_buffer_built_once:
  "contexts (run calls init) \<le> 1 \<and> buffers (run calls init) \<le> 1 \<and>
   (allowContext h \<longrightarrow>
      ctx (after (perform (h, k, switchId) init)) \<noteq> None \<and>
      noiseBuffer (after (perform (h, k, switchId) init)) \<noteq> None \<and>
      contexts (after (perform (h, k, switchId) init)) = 1 \<and>
      buffers (after (perform (h, k, switchId) init)) = 1) \<and>
   (ctx (run calls init) \<noteq> None \<longrightarrow>
      ctx (run (calls @ later) init) = ctx (run calls init) \<and>
      noiseBuffer (run (calls @ later) init) = noiseBuffer (run calls init) \<and>
      contexts (run (calls @ later) init) = 1 \<and>
      buffers (run (calls @ later) init) = 1) \<and>
   (ensureCtx h s = Inr (s', c, n) \<longrightarrow> ensureCtx h' s' = Inr (s'', c', n') \<longrightarrow>
      c' = c \<and> noiseBuffer s'' = noiseBuffer s' \<and>
      contexts s'' = contexts s' \<and> buffers s'' = buffers s')"
proof (intro conjI impI)
  have b: "built (run calls init)" by (rule built_run [OF built_init])
  then show "contexts (run calls init) \<le> 1" "buffers (run calls init) \<le> 1"
    by (auto simp: built_def)
  {
    assume a: "allowContext h"
    have i: "ctx init = None" by (simp add: init_def)
    from perform_first [OF i a, of k switchId]
    show "ctx (after (perform (h, k, switchId) init)) \<noteq> None"
      "noiseBuffer (after (perform (h, k, switchId) init)) \<noteq> None"
      "contexts (after (perform (h, k, switchId) init)) = 1"
      "buffers (after (perform (h, k, switchId) init)) = 1"
      by (simp_all add: init_def)
  }
  {
    assume r: "ctx (run calls init) \<noteq> None"
    from run_keeps [OF r, of later] b r
    show "ctx (run (calls @ later) init) = ctx (run calls init)"
      "noiseBuffer (run (calls @ later) init) = noiseBuffer (run calls init)"
      "contexts (run (calls @ later) init) = 1"
      "buffers (run (calls @ later) init) = 1"
      by (auto simp: run_append built_def)
  }
  {
    assume e1: "ensureCtx h s = Inr (s', c, n)" and e2: "ensureCtx h' s' = Inr (s'', c', n')"
    from ensureCtx_result(1) [OF e1] have c: "ctx s' = Some c" .
    then have "ctx s' \<noteq> None" by simp
    from ensureCtx_result(3) [OF e2 this] ensureCtx_result(1) [OF e2] c
    show "c' = c" "noiseBuffer s'' = noiseBuffer s'" "contexts s'' = contexts s'"
      "buffers s'' = buffers s'"
      by simp_all
  }
qed

text \<open>Claim C4 on a granted key press followed by a release under a refusing host.\<close>

theorem context_and_buffer_built_once_witness:
  "allowContext hostGranting \<and>
   ctx (run [(hostGranting, Down, ''red'')] init) \<noteq> None \<and>
   ctx (run ([(hostGranting, Down, ''red'')] @ [(hostDenying, Up, ''blue'')]) init) =
     ctx (run [(hostGranting, Down, ''red'')] init) \<and>
   noiseBuffer (run ([(hostGranting, Down, ''red'')] @ [(hostDenying, Up, ''blue'')]) init) =
     noiseBuffer (run [(hostGranting, Down, ''red'')] init) \<and>
   contexts (run ([(hostGranting, Down, ''red'')] @ [(hostDenying, Up, ''blue'')]) init) = 1 \<and>
   buffers (run ([(hostGranting, Down, ''red'')] @ [(hostDenying, Up, ''blue'')]) init) = 1 \<and>
   (\<exists>s' c n s'' n'. ensureCtx hostGranting init = Inr (s', c, n) \<and>
      ensureCtx hostDenying s' = Inr (s'', c, n') \<and> noiseBuffer s'' = noiseBuffer s' \<and>
      contexts s'' = contexts s' \<and> buffers s'' = buffers s')"
proof -
  have a: "allowContext hostGranting" by (simp add: hostGranting_def)
  obtain s' c n where e1: "ensureCtx hostGranting init = Inr (s', c, n)"
    using ensureCtx_returns [of hostGranting init] a by blast
  have "ctx s' \<noteq> None" using ensureCtx_result(1) [OF e1] by simp
  then obtain s'' c' n' where e2: "ensureCtx hostDenying s' = Inr (s'', c', n')"
    using ensureCtx_returns [of hostDenying s'] by blast
  from context_and_buffer_built_once
         [of "[(hostGranting, Down, ''red'')]" hostGranting Down "''red''"
             "[(hostDenying, Up, ''blue'')]" init s' c n hostDenying s'' c' n'] a e1 e2
  show ?thesis by simp
qed

text \<open>
  Claim C5 says that the buffer has \<open>round(sampleRate * 0.1)\<close> samples. The length handed to
  \<open>createBuffer\<close> is not rounded, its fraction is dropped: at 11025 Hz the buffer has 1102
  samples while \<open>round(1102.5)\<close> is 1103.
\<close>

theorem noise_buffer_length_counterexample:
  "map_option length (noiseBuffer (after (playDown host11025 init ''red''))) = Some 1102 \<and>
   nat (round (deviceRate host11025 * 0.1)) = 1103"
proof -
  have i: "ctx init = None" by (simp add: init_def)
  have a: "allowContext host11025" by (simp add: host11025_def)
  from ensureCtx_fresh [OF i a] obtain s' n data where
    e: "ensureCtx host11025 init = Inr (s', \<lparr>ident = contexts init, sampleRate = deviceRate host11025\<rparr>, n)"
    and d: "noiseBuffer s' = Some data"
      "data = snd (fill (deviceRate host11025 * 0.1) (mathRandom host11025)
                         (0, createBuffer (deviceRate host11025 * 0.1)))"
    by blast
  have l: "length data = 1102"
    by (simp add: d(2) fill_length createBuffer_def host11025_def)
  have "after (playDown host11025 init ''red'') = s'"
    by (simp add: after_playDown e)
  moreover have "nat (round (deviceRate host11025 * 0.1)) = 1103"
    by (simp add: host11025_def round_def)
  ultimately show ?thesis
    by (simp add: d(1) l)
qed

text \<open>
  Claim C5 as amended: the buffer has \<open>floor(sampleRate * 0.1)\<close> samples, which is
  \<open>round(sampleRate * 0.1)\<close> when that product is an integer; sample \<open>i\<close> is the draw scaled
  to \<open>[-1, 1)\<close> times \<open>exp(-i / (len * 0.25))\<close> with \<open>len = sampleRate * 0.1\<close>, which is the
  buffer length when the product is an integer; every sample has magnitude at most 1 when
  the draws are in \<open>[0, 1)\<close>; the envelope is 1 at index 0 and strictly decreasing.
\<close>

theorem noise_buffer_shape:
  assumes "ctx s = Some c"
  shows "\<exists>data. noiseBuffer (fst (buildNoiseBuffer h s)) = Some data \<and>
           length data = nat \<lfloor>sampleRate c * 0.1\<rfloor> \<and>
           (sampleRate c * 0.1 \<in> \<int> \<longrightarrow> length data = nat (round (sampleRate c * 0.1))) \<and>
           (\<forall>i<length data.
              data ! i = (mathRandom h i * 2 - 1) * exp (- real i / (sampleRate c * 0.1 * 0.25)) \<and>
              (0 \<le> mathRandom h i \<and> mathRandom h i < 1 \<longrightarrow> \<bar>data ! i\<bar> \<le> 1) \<and>
              (real (length data) = sampleRate c * 0.1 \<longrightarrow>
                 data ! i = (mathRandom h i * 2 - 1) *
                            exp (- real i / (real (length data) * 0.25)))) \<and>
           envelope (sampleRate c * 0.1) 0 = 1 \<and>
           (\<forall>i j. 0 < sampleRate c \<longrightarrow> i < j \<longrightarrow>
                    envelope (sampleRate c * 0.1) j < envelope (sampleRate c * 0.1) i)"
proof -
  let ?len = "sampleRate c * 0.1"
  let ?data = "snd (fill ?len (mathRandom h) (0, createBuffer ?len))"
  have b: "noiseBuffer (fst (buildNoiseBuffer h s)) = Some ?data"
    using buildNoiseBuffer_Some [OF assms, of h] by auto
  have l: "length ?data = nat \<lfloor>?len\<rfloor>"
    by (simp add: fill_length createBuffer_def)
  have n: "?data ! i = (mathRandom h i * 2 - 1) * envelope ?len i" if "i < length ?data" for i
  proof -
    from that have i: "i < length (createBuffer ?len)" by (simp add: fill_length)
    from createBuffer_covered [OF i] fill_nth [OF i, of ?len "mathRandom h"]
    show ?thesis by simp
  qed
  have m: "\<bar>?data ! i\<bar> \<le> 1"
    if "i < length ?data" "0 \<le> mathRandom h i \<and> mathRandom h i < 1" for i
  proof -
    from that(1) have "i < length (createBuffer ?len)" by (simp add: fill_length)
    from createBuffer_covered [OF this] have "0 < ?len"
      by (meson of_nat_0_le_iff le_less_trans)
    from sample_bound [OF _ _ this, of "mathRandom h i" i] that(2) n [OF that(1)]
    show ?thesis by simp
  qed
  have d: "envelope ?len j < envelope ?len i" if "0 < sampleRate c" "i < j" for i j
    using that by (simp add: envelope_decreasing)
  show ?thesis
  proof (intro exI [of _ ?data] conjI allI impI)
    show "noiseBuffer (fst (buildNoiseBuffer h s)) = Some ?data" by (rule b)
    show "length ?data = nat \<lfloor>?len\<rfloor>" by (rule l)
    show "envelope ?len 0 = 1" by (rule envelope_zero)
  next
    assume "?len \<in> \<int>"
    then obtain z where "?len = of_int z" by (rule Ints_cases)
    then have "round ?len = \<lfloor>?len\<rfloor>" by simp
    with l show "length ?data = nat (round ?len)" by simp
  next
    fix i assume "i < length ?data"
    from n [OF this]
    show "?data ! i = (mathRandom h i * 2 - 1) * exp (- real i / (sampleRate c * 0.1 * 0.25))"
      by (simp add: envelope_def)
  next
    fix i assume "i < length ?data" "0 \<le> mathRandom h i \<and> mathRandom h i < 1"
    then show "\<bar>?data ! i\<bar> \<le> 1" by (rule m)
  next
    fix i assume i: "i < length ?data" and eq: "real (length ?data) = sampleRate c * 0.1"
    have "?data ! i = (mathRandom h i * 2 - 1) * exp (- real i / (?len * 0.25))"
      using n [OF i] by (simp only: envelope_def)
    also have "exp (- real i / (?len * 0.25)) = exp (- real i / (real (length ?data) * 0.25))"
      by (simp only: eq)
    finally
    show "?data ! i = (mathRandom h i * 2 - 1) * exp (- real i / (real (length ?data) * 0.25))" .
  next
    fix i j :: nat assume "0 < sampleRate c" "i < j"
    then show "envelope ?len j < envelope ?len i" by (rule d)
  qed
qed

text \<open>Claim C5 as amended, on a context at 44100 Hz.\<close>

theorem noise_buffer_shape_witness:
  "ctx contextOnly = Some \<lparr>ident = 0, sampleRate = 44100\<rparr> \<and>
   (\<exists>data. noiseBuffer (fst (buildNoiseBuffer hostGranting contextOnly)) = Some data \<and>
      length data = 4410 \<and> \<bar>data ! 1\<bar> \<le> 1 \<and>
      data ! 1 = (mathRandom hostGranting 1 * 2 - 1) * exp (- 1 / (4410 * 0.25)) \<and>
      envelope 4410 1 < envelope 4410 0)"
proof -
  let ?c = "\<lparr>ident = 0, sampleRate = 44100\<rparr>"
  have c: "ctx contextOnly = Some ?c"
    by (simp add: contextOnly_def)
  have r: "0 \<le> mathRandom hostGranting 1 \<and> mathRandom hostGranting 1 < 1"
    by (simp add: hostGranting_def)
  from noise_buffer_shape [OF c, of hostGranting] obtain data where
    d: "noiseBuffer (fst (buildNoiseBuffer hostGranting contextOnly)) = Some data"
    and l: "length data = nat \<lfloor>sampleRate ?c * 0.1\<rfloor>"
    and z: "sampleRate ?c * 0.1 \<in> \<int> \<longrightarrow> length data = nat (round (sampleRate ?c * 0.1))"
    and a: "\<forall>i<length data.
          data ! i = (mathRandom hostGranting i * 2 - 1) *
                     exp (- real i / (sampleRate ?c * 0.1 * 0.25)) \<and>
          (0 \<le> mathRandom hostGranting i \<and> mathRandom hostGranting i < 1 \<longrightarrow>
             \<bar>data ! i\<bar> \<le> 1) \<and>
          (real (length data) = sampleRate ?c * 0.1 \<longrightarrow>
             data ! i = (mathRandom hostGranting i * 2 - 1) *
                        exp (- real i / (real (length data) * 0.25)))"
    and e: "\<forall>i j. 0 < sampleRate ?c \<longrightarrow> i < j \<longrightarrow>
          envelope (sampleRate ?c * 0.1) j < envelope (sampleRate ?c * 0.1) i"
    by blast
  from l have l': "length data = 4410" by simp
  then have "1 < length data" by simp
  with a have a1: "data ! 1 = (mathRandom hostGranting 1 * 2 - 1) *
                     exp (- real 1 / (sampleRate ?c * 0.1 * 0.25))"
    and a2: "0 \<le> mathRandom hostGranting 1 \<and> mathRandom hostGranting 1 < 1 \<longrightarrow>
             \<bar>data ! 1\<bar> \<le> 1"
    by blast+
  from a2 r have m: "\<bar>data ! 1\<bar> \<le> 1" by blast
  from a1 have v: "data ! 1 = (mathRandom hostGranting 1 * 2 - 1) * exp (- 1 / (4410 * 0.25))"
    by simp
  have "(0::nat) < 1" by simp
  with e have "0 < sampleRate ?c \<longrightarrow> envelope (sampleRate ?c * 0.1) 1 < envelope (sampleRate ?c * 0.1) 0"
    by blast
  then have "envelope 4410 1 < envelope 4410 0" by simp
  with c d l' m v show ?thesis by blast
qed

text \<open>
  Claim C6: when \<open>ensureCtx\<close> returns, \<open>playDown\<close> schedules a click layer exactly when the
  click frequency of what the lookup gave is positive; the layer is a square oscillator at
  \<open>jitter(clickFreq, 0.06)\<close> whose gain starts at \<open>volume * 0.25\<close>, ramps until
  \<open>now + clickDecay\<close> and whose source stops 5 ms later; \<open>"blue"\<close> gets one and \<open>"red"\<close>
  gets none.
\<close>

theorem playDown_click_layer:
  assumes "ensureCtx h s = Inr (s', c, n)"
  shows "(filter isClick (scheduled (playDown h s switchId)) \<noteq> [] \<longleftrightarrow>
            clickFreqPositive (lookup switchId)) \<and>
         (\<forall>q. lookup switchId = Profile q \<longrightarrow> clickFreq q > 0 \<longrightarrow>
            filter isClick (scheduled (playDown h s switchId)) =
              [\<lparr>src = Oscillator Square
                        (jitter (clickFreq q) (Some 0.06)
                           (mathRandom h
                              (n + (case noiseBuffer s' of None \<Rightarrow> 0 | Some b \<Rightarrow> 2) + 1))),
                gainStart = volume q * 0.25,
                rampTarget = 0.001, rampEnd = currentTime h + clickDecay q,
                startAt = currentTime h, stopAt = currentTime h + clickDecay q + 0.005\<rparr>]) \<and>
         (switchId = ''blue'' \<longrightarrow> filter isClick (scheduled (playDown h s switchId)) \<noteq> []) \<and>
         (switchId = ''red'' \<longrightarrow> filter isClick (scheduled (playDown h s switchId)) = [])"
proof -
  have p: "filter isClick (scheduled (playDown h s switchId)) =
             (if clickFreq q > 0
              then [\<lparr>src = Oscillator Square
                        (jitter (clickFreq q) (Some 0.06)
                           (mathRandom h
                              (n + (case noiseBuffer s' of None \<Rightarrow> 0 | Some b \<Rightarrow> 2) + 1))),
                gainStart = volume q * 0.25,
                rampTarget = 0.001, rampEnd = currentTime h + clickDecay q,
                startAt = currentTime h, stopAt = currentTime h + clickDecay q + 0.005\<rparr>]
              else [])"
    if "lookup switchId = Profile q" for q
    by (simp add: playDown_profile [OF assms that] split: option.splits)
  have i: "filter isClick (scheduled (playDown h s switchId)) = []"
    if "lookup switchId = Inherited"
    by (simp add: playDown_inherited [OF assms that])
  have 1: "filter isClick (scheduled (playDown h s switchId)) \<noteq> [] \<longleftrightarrow>
            clickFreqPositive (lookup switchId)"
  proof (cases "lookup switchId")
    case (Profile q)
    then show ?thesis by (simp add: p [OF Profile])
  next
    case Inherited
    then show ?thesis by (simp add: i [OF Inherited])
  qed
  have 3: "filter isClick (scheduled (playDown h s switchId)) \<noteq> []" if "switchId = ''blue''"
    using 1 that by (simp add: lookup_blue blue_def)
  have 4: "filter isClick (scheduled (playDown h s switchId)) = []" if "switchId = ''red''"
    using 1 that by (simp add: lookup_red red_def)
  from 1 p 3 4 show ?thesis by simp
qed

text \<open>Claim C6 on \<open>"blue"\<close> and \<open>"red"\<close> from the initial state under a granting host.\<close>

theorem playDown_click_layer_witness:
  "(\<exists>s' c n. ensureCtx hostGranting init = Inr (s', c, n)) \<and>
   filter isClick (scheduled (playDown hostGranting init ''blue'')) \<noteq> [] \<and>
   clickFreqPositive (lookup ''blue'') \<and>
   filter isClick (scheduled (playDown hostGranting init ''red'')) = []"
proof -
  have a: "allowContext hostGranting" by (simp add: hostGranting_def)
  obtain s' c n where e: "ensureCtx hostGranting init = Inr (s', c, n)"
    using ensureCtx_returns [of hostGranting init] a by blast
  from playDown_click_layer [OF e, of "''blue''"] playDown_click_layer [OF e, of "''red''"] e
  show ?thesis by (simp add: lookup_blue blue_def)
qed

text \<open>
  Claim C7 gives the frequency of the release click as \<open>clickFreq * 0.8\<close>, while it says of
  the filter centre that it is jittered and of the gain that it is not. The click frequency
  is passed through \<open>jitter\<close> as well: on \<open>"blue"\<close>, when every draw of \<open>Math.random()\<close> is 0,
  the click is at 3225.6 Hz and not at 3360 Hz.
\<close>

theorem playUp_click_frequency_counterexample:
  "map src (filter isClick (scheduled (playUp hostLowDraw init ''blue''))) =
     [Oscillator Square 3225.6] \<and>
   clickFreq blue * 0.8 = 3360"
proof -
  have i: "ctx init = None" by (simp add: init_def)
  have a: "allowContext hostLowDraw" by (simp add: hostLowDraw_def)
  from ensureCtx_fresh [OF i a] obtain s' n data where
    e: "ensureCtx hostLowDraw init =
          Inr (s', \<lparr>ident = contexts init, sampleRate = deviceRate hostLowDraw\<rparr>, n)"
    and d: "noiseBuffer s' = Some data"
    by blast
  have r: "mathRandom hostLowDraw k = 0" for k by (simp add: hostLowDraw_def)
  have "map src (filter isClick (scheduled (playUp hostLowDraw init ''blue''))) =
          [Oscillator Square 3225.6]"
    by (simp add: playUp_profile [OF e lookup_blue] d r jitter_def blue_def)
  moreover have "clickFreq blue * 0.8 = 3360" by (simp add: blue_def)
  ultimately show ?thesis by simp
qed

text \<open>
  Claim C7 as amended: when \<open>ensureCtx\<close> returns and the switch id resolves to the profile
  \<open>q\<close>, \<open>playUp\<close> schedules the noise body (when the buffer exists) with filter centre
  \<open>jitter(filterFreq * 1.4)\<close>, Q \<open>filterQ * 0.8\<close>, gain \<open>volume * 0.35\<close> without jitter and
  decay \<open>thockDecay * 0.6\<close>, and, only when \<open>clickFreq > 0\<close>, a click at
  \<open>jitter(clickFreq * 0.8)\<close> with gain \<open>volume * 0.15\<close> and decay \<open>clickDecay * 0.7\<close>. Both
  calls of \<open>jitter\<close> use the default amount: the result is \<open>v * (1 + (r - 0.5) * 2 * 0.04)\<close>,
  within 4 percent of a non-negative \<open>v\<close>. A switch id that resolves to no profile gets no
  layer; \<open>"speed"\<close> gets no click, centre 1680 Hz before jitter and decay 0.021 s.
\<close>

theorem playUp_parameters:
  assumes "ensureCtx h s = Inr (s', c, n)"
  shows "(\<forall>q. lookup switchId = Profile q \<longrightarrow>
      scheduled (playUp h s switchId) =
       (case noiseBuffer s' of
          None \<Rightarrow> []
        | Some buf \<Rightarrow>
            [\<lparr>src = BufferSource buf (jitter (filterFreq q * 1.4) None (mathRandom h n))
                      (filterQ q * 0.8),
              gainStart = volume q * 0.35,
              rampTarget = 0.001, rampEnd = currentTime h + thockDecay q * 0.6,
              startAt = currentTime h, stopAt = currentTime h + 0.1\<rparr>]) @
       (if clickFreq q > 0
        then [\<lparr>src = Oscillator Square
                      (jitter (clickFreq q * 0.8) None
                         (mathRandom h
                            (n + (case noiseBuffer s' of None \<Rightarrow> 0 | Some b \<Rightarrow> 1)))),
               gainStart = volume q * 0.15,
               rampTarget = 0.001, rampEnd = currentTime h + clickDecay q * 0.7,
               startAt = currentTime h, stopAt = currentTime h + clickDecay q * 0.7 + 0.005\<rparr>]
        else [])) \<and>
     (\<forall>v r. jitter v None r = v * (1 + (r - 0.5) * 2 * 0.04) \<and>
        (0 \<le> v \<and> 0 \<le> r \<and> r < 1 \<longrightarrow>
           v * (1 - 0.04) \<le> jitter v None r \<and> jitter v None r \<le> v * (1 + 0.04))) \<and>
     (lookup switchId = Inherited \<longrightarrow> scheduled (playUp h s switchId) = []) \<and>
     (switchId = ''speed'' \<longrightarrow>
        lookup switchId = Profile speed \<and>
        filter isClick (scheduled (playUp h s switchId)) = [] \<and>
        filterFreq speed * 1.4 = 1680 \<and> thockDecay speed * 0.6 = 0.021)"
proof (intro conjI allI impI)
  fix q assume p: "lookup switchId = Profile q"
  show "scheduled (playUp h s switchId) =
       (case noiseBuffer s' of
          None \<Rightarrow> []
        | Some buf \<Rightarrow>
            [\<lparr>src = BufferSource buf (jitter (filterFreq q * 1.4) None (mathRandom h n))
                      (filterQ q * 0.8),
              gainStart = volume q * 0.35,
              rampTarget = 0.001, rampEnd = currentTime h + thockDecay q * 0.6,
              startAt = currentTime h, stopAt = currentTime h + 0.1\<rparr>]) @
       (if clickFreq q > 0
        then [\<lparr>src = Oscillator Square
                      (jitter (clickFreq q * 0.8) None
                         (mathRandom h
                            (n + (case noiseBuffer s' of None \<Rightarrow> 0 | Some b \<Rightarrow> 1)))),
               gainStart = volume q * 0.15,
               rampTarget = 0.001, rampEnd = currentTime h + clickDecay q * 0.7,
               startAt = currentTime h, stopAt = currentTime h + clickDecay q * 0.7 + 0.005\<rparr>]
        else [])"
    by (simp add: playUp_profile [OF assms p])
next
  fix v r :: real
  show "jitter v None r = v * (1 + (r - 0.5) * 2 * 0.04)" by (simp add: jitter_def)
next
  fix v r :: real
  assume b: "0 \<le> v \<and> 0 \<le> r \<and> r < 1"
  have u: "- 0.5 \<le> r - 0.5" "r - 0.5 < 0.5" using b by simp_all
  from b have v: "0 \<le> v" by simp
  have a0: "(0::real) \<le> 0.04" by simp
  from jitter_bounds(1) [OF v a0 u]
  show "v * (1 - 0.04) \<le> jitter v None r" by (simp add: jitter_def)
  from jitter_bounds(2) [OF v a0 u]
  show "jitter v None r \<le> v * (1 + 0.04)" by (simp add: jitter_def)
next
  assume "lookup switchId = Inherited"
  from playUp_inherited [OF assms this]
  show "scheduled (playUp h s switchId) = []" by simp
next
  assume sp: "switchId = ''speed''"
  then show p: "lookup switchId = Profile speed" by (simp add: lookup_speed)
  show "filter isClick (scheduled (playUp h s switchId)) = []"
    by (simp add: playUp_profile [OF assms p] speed_def split: option.splits)
  show "filterFreq speed * 1.4 = 1680" by (simp add: speed_def)
  show "thockDecay speed * 0.6 = 0.021" by (simp add: speed_def)
qed

text \<open>
  Claim C7 as amended, on \<open>"blue"\<close>, \<open>"speed"\<close> and \<open>"constructor"\<close> from the initial state,
  under a granting host whose draws are all 0.
\<close>

theorem playUp_parameters_witness:
  "(\<exists>s' c n. ensureCtx hostLowDraw init = Inr (s', c, n)) \<and>
   lookup ''blue'' = Profile blue \<and>
   map src (filter isClick (scheduled (playUp hostLowDraw init ''blue''))) =
     [Oscillator Square (clickFreq blue * 0.8 * (1 - 0.04))] \<and>
   map gainStart (scheduled (playUp hostLowDraw init ''blue'')) =
     [volume blue * 0.35, volume blue * 0.15] \<and>
   lookup ''speed'' = Profile speed \<and>
   filter isClick (scheduled (playUp hostLowDraw init ''speed'')) = [] \<and>
   filterFreq speed * 1.4 = 1680 \<and> thockDecay speed * 0.6 = 0.021 \<and>
   lookup ''constructor'' = Inherited \<and>
   scheduled (playUp hostLowDraw init ''constructor'') = []"
proof -
  have i: "ctx init = None" by (simp add: init_def)
  have a: "allowContext hostLowDraw" by (simp add: hostLowDraw_def)
  from ensureCtx_fresh [OF i a] obtain s' n data where
    e: "ensureCtx hostLowDraw init =
          Inr (s', \<lparr>ident = contexts init, sampleRate = deviceRate hostLowDraw\<rparr>, n)"
    and d: "noiseBuffer s' = Some data"
    by blast
  have r: "mathRandom hostLowDraw k = 0" for k by (simp add: hostLowDraw_def)
  have c: "lookup ''constructor'' = Inherited"
    by (simp add: lookup_def PROFILES_get_def PROFILES_def object_prototype_keys_def)
  note t = playUp_parameters [OF e]
  from t [of "''blue''"] lookup_blue
  have b: "scheduled (playUp hostLowDraw init ''blue'') =
       (case noiseBuffer s' of
          None \<Rightarrow> []
        | Some buf \<Rightarrow>
            [\<lparr>src = BufferSource buf
                      (jitter (filterFreq blue * 1.4) None (mathRandom hostLowDraw n))
                      (filterQ blue * 0.8),
              gainStart = volume blue * 0.35,
              rampTarget = 0.001, rampEnd = currentTime hostLowDraw + thockDecay blue * 0.6,
              startAt = currentTime hostLowDraw, stopAt = currentTime hostLowDraw + 0.1\<rparr>]) @
       (if clickFreq blue > 0
        then [\<lparr>src = Oscillator Square
                      (jitter (clickFreq blue * 0.8) None
                         (mathRandom hostLowDraw
                            (n + (case noiseBuffer s' of None \<Rightarrow> 0 | Some b \<Rightarrow> 1)))),
               gainStart = volume blue * 0.15,
               rampTarget = 0.001, rampEnd = currentTime hostLowDraw + clickDecay blue * 0.7,
               startAt = currentTime hostLowDraw,
               stopAt = currentTime hostLowDraw + clickDecay blue * 0.7 + 0.005\<rparr>]
        else [])"
    by blast
  from t [of "''blue''"]
  have j: "jitter (clickFreq blue * 0.8) None 0 =
             clickFreq blue * 0.8 * (1 + (0 - 0.5) * 2 * 0.04)"
    by blast
  have pos: "clickFreq blue > 0" by (simp add: blue_def)
  from j have jv: "jitter (clickFreq blue * 0.8) None 0 = clickFreq blue * 0.8 * (1 - 0.04)"
    by simp
  have 0: "map src (filter isClick (scheduled (playUp hostLowDraw init ''blue''))) =
     [Oscillator Square (jitter (clickFreq blue * 0.8) None 0)]"
    by (simp add: b d r pos)
  have 1: "map src (filter isClick (scheduled (playUp hostLowDraw init ''blue''))) =
     [Oscillator Square (clickFreq blue * 0.8 * (1 - 0.04))]"
    by (simp only: 0 jv)
  have 2: "map gainStart (scheduled (playUp hostLowDraw init ''blue'')) =
     [volume blue * 0.35, volume blue * 0.15]"
    by (simp add: b d pos)
  from t [of "''speed''"]
  have 3: "lookup ''speed'' = Profile speed \<and>
        filter isClick (scheduled (playUp hostLowDraw init ''speed'')) = [] \<and>
        filterFreq speed * 1.4 = 1680 \<and> thockDecay speed * 0.6 = 0.021"
    by blast
  from t [of "''constructor''"] c
  have 4: "scheduled (playUp hostLowDraw init ''constructor'') = []" by blast
  from e lookup_blue 1 2 3 c 4 show ?thesis by blast
qed

text \<open>
  Claim C8: for every host, state and switch id, \<open>playUp\<close> schedules no sine oscillator;
  of the two operations only \<open>playDown\<close> builds one.
\<close>

theorem playUp_never_schedules_thud:
  "filter isThud (scheduled (playUp h s switchId)) = []"
proof (cases "ensureCtx h s")
  case (Inl e)
  then show ?thesis by (simp add: playUp_def)
next
  case (Inr r)
  obtain s' c n where r: "r = (s', c, n)" by (cases r) auto
  show ?thesis
  proof (cases "lookup switchId")
    case (Profile q)
    from Inr r have "ensureCtx h s = Inr (s', c, n)" by simp
    from playUp_profile [OF this Profile] show ?thesis
      by (simp split: option.splits)
  next
    case Inherited
    from Inr r have "ensureCtx h s = Inr (s', c, n)" by simp
    from playUp_inherited [OF this Inherited] show ?thesis by simp
  qed
qed

text \<open>
  Claim C9 says that the noise body is skipped whenever the buffer does not exist when
  \<open>playDown\<close> is called. On the initial state the buffer does not exist, \<open>ensureCtx\<close> builds
  it before the test, and the noise body is scheduled.
\<close>

theorem noise_skipped_counterexample:
  "noiseBuffer init = None \<and>
   filter isNoise (scheduled (playDown hostGranting init ''red'')) \<noteq> []"
proof -
  have i: "ctx init = None" by (simp add: init_def)
  have a: "allowContext hostGranting" by (simp add: hostGranting_def)
  from ensureCtx_fresh [OF i a] obtain s' n data where
    e: "ensureCtx hostGranting init =
          Inr (s', \<lparr>ident = contexts init, sampleRate = deviceRate hostGranting\<rparr>, n)"
    and d: "noiseBuffer s' = Some data"
    by blast
  have "filter isNoise (scheduled (playDown hostGranting init ''red'')) \<noteq> []"
    by (simp add: playDown_profile [OF e lookup_red] d)
  then show ?thesis by (simp add: init_def)
qed

text \<open>
  Claim C9 as amended: for a switch id that resolves to a profile, when the engine holds a
  context but no buffer, \<open>playDown\<close> returns normally and schedules the thud, then the
  click when \<open>clickFreq > 0\<close>, and no noise body; when the engine holds no context and the
  host grants one, the buffer is built first and the noise body is scheduled.
\<close>

theorem noise_skipped_without_buffer:
  assumes "lookup switchId = Profile q"
  shows "(ctx s \<noteq> None \<and> noiseBuffer s = None \<longrightarrow>
            raised (playDown h s switchId) = None \<and>
            scheduled (playDown h s switchId) =
              [\<lparr>src = Oscillator Sine (jitter (baseFreq q) None (mathRandom h 0)),
                gainStart = volume q * 0.45,
                rampTarget = 0.001, rampEnd = currentTime h + 0.04,
                startAt = currentTime h, stopAt = currentTime h + 0.05\<rparr>] @
              (if clickFreq q > 0
               then [\<lparr>src = Oscillator Square
                             (jitter (clickFreq q) (Some 0.06) (mathRandom h 1)),
                      gainStart = volume q * 0.25,
                      rampTarget = 0.001, rampEnd = currentTime h + clickDecay q,
                      startAt = currentTime h,
                      stopAt = currentTime h + clickDecay q + 0.005\<rparr>]
               else [])) \<and>
         (ctx s = None \<and> allowContext h \<longrightarrow>
            filter isNoise (scheduled (playDown h s switchId)) \<noteq> [])"
proof (intro conjI impI)
  assume a: "ctx s \<noteq> None \<and> noiseBuffer s = None"
  then obtain c where c: "ctx s = Some c" by auto
  let ?s = "if suspended h then s\<lparr>resumes := resumes s + 1\<rparr> else s"
  have e: "ensureCtx h s = Inr (?s, c, 0)" by (rule ensureCtx_existing [OF c])
  have b: "noiseBuffer ?s = None" using a by simp
  show "raised (playDown h s switchId) = None"
    by (simp add: playDown_profile [OF e assms])
  show "scheduled (playDown h s switchId) =
              [\<lparr>src = Oscillator Sine (jitter (baseFreq q) None (mathRandom h 0)),
                gainStart = volume q * 0.45,
                rampTarget = 0.001, rampEnd = currentTime h + 0.04,
                startAt = currentTime h, stopAt = currentTime h + 0.05\<rparr>] @
              (if clickFreq q > 0
               then [\<lparr>src = Oscillator Square
                             (jitter (clickFreq q) (Some 0.06) (mathRandom h 1)),
                      gainStart = volume q * 0.25,
                      rampTarget = 0.001, rampEnd = currentTime h + clickDecay q,
                      startAt = currentTime h,
                      stopAt = currentTime h + clickDecay q + 0.005\<rparr>]
               else [])"
    using b by (simp add: playDown_profile [OF e assms])
next
  assume a: "ctx s = None \<and> allowContext h"
  then have i: "ctx s = None" and g: "allowContext h" by simp_all
  from ensureCtx_fresh [OF i g] obtain s' n data where
    e: "ensureCtx h s = Inr (s', \<lparr>ident = contexts s, sampleRate = deviceRate h\<rparr>, n)"
    and d: "noiseBuffer s' = Some data"
    by blast
  show "filter isNoise (scheduled (playDown h s switchId)) \<noteq> []"
    by (simp add: playDown_profile [OF e assms] d)
qed

text \<open>Claim C9 as amended, on \<open>"blue"\<close> with a context and no buffer, and from the initial state.\<close>

theorem noise_skipped_without_buffer_witness:
  "lookup ''blue'' = Profile blue \<and>
   ctx contextOnly \<noteq> None \<and> noiseBuffer contextOnly = None \<and>
   raised (playDown hostDenying contextOnly ''blue'') = None \<and>
   map isNoise (scheduled (playDown hostDenying contextOnly ''blue'')) = [False, False] \<and>
   map isThud (scheduled (playDown hostDenying contextOnly ''blue'')) = [True, False] \<and>
   map isClick (scheduled (playDown hostDenying contextOnly ''blue'')) = [False, True] \<and>
   ctx init = None \<and> allowContext hostGranting \<and>
   filter isNoise (scheduled (playDown hostGranting init ''blue'')) \<noteq> []"
  using noise_skipped_without_buffer [OF lookup_blue, of contextOnly hostDenying]
        noise_skipped_without_buffer [OF lookup_blue, of init hostGranting]
  by (simp add: lookup_blue contextOnly_def init_def hostGranting_def blue_def)

text \<open>
  Claim C10 says that a state with a context has a buffer, and that therefore every call in
  which \<open>ensureCtx\<close> returns schedules the noise body. The invariant holds (lemma
  \<open>buffer_present_with_context\<close>). On \<open>"constructor"\<close>, from the initial state under a granting
  host, \<open>ensureCtx\<close> returns and the buffer exists, but the lookup gives no profile, the filter
  frequency is NaN, and both operations raise a \<open>TypeError\<close> before the buffer source is
  started: no noise body is scheduled.
\<close>

theorem noise_body_missing_for_inherited_key:
  "\<not> isl (ensureCtx hostGranting init) \<and>
   lookup ''constructor'' = Inherited \<and>
   noiseBuffer (after (playDown hostGranting init ''constructor'')) \<noteq> None \<and>
   raised (playDown hostGranting init ''constructor'') = Some TypeError \<and>
   filter isNoise (scheduled (playDown hostGranting init ''constructor'')) = [] \<and>
   noiseBuffer (after (playUp hostGranting init ''constructor'')) \<noteq> None \<and>
   raised (playUp hostGranting init ''constructor'') = Some TypeError \<and>
   filter isNoise (scheduled (playUp hostGranting init ''constructor'')) = []"
proof -
  have i: "ctx init = None" by (simp add: init_def)
  have a: "allowContext hostGranting" by (simp add: hostGranting_def)
  from ensureCtx_fresh [OF i a] obtain s' n data where
    e: "ensureCtx hostGranting init =
          Inr (s', \<lparr>ident = contexts init, sampleRate = deviceRate hostGranting\<rparr>, n)"
    and d: "noiseBuffer s' = Some data"
    by blast
  have c: "lookup ''constructor'' = Inherited"
    by (simp add: lookup_def PROFILES_get_def PROFILES_def object_prototype_keys_def)
  show ?thesis
    by (simp add: c playDown_inherited [OF e c] playUp_inherited [OF e c] d e)
qed

end
